theory Spec2Isabelle
  imports Main "HOL-Library.Sublist"
begin

section \<open>The device-push client (autoxjs\_dashboard.js)\<close>

subsection \<open>Configuration\<close>

definition API_URL :: string where
  "API_URL = ''https://status.wisteriazy.moe/device/set''"

definition SECRET :: string where
  "SECRET = ''erh3PVxATcxS9qHlVZkAXBf_TZ6f-HrcGwNPREOJ-bc''"

definition ID :: string where
  "ID = ''phone''"

text \<open>The display name is two CJK characters; a \<^typ>\<open>string\<close> holds bytes, so it is
  written as its UTF-8 encoding.\<close>

definition SHOW_NAME :: string where
  "SHOW_NAME = [CHR 0xE6, CHR 0x89, CHR 0x8B, CHR 0xE6, CHR 0x9C, CHR 0xBA]"

definition CHECK_INTERVAL :: int where
  "CHECK_INTERVAL = 3000"

definition HEARTBEAT_INTERVAL :: int where
  "HEARTBEAT_INTERVAL = 10000"

subsection \<open>Data\<close>

text \<open>A JavaScript string is taken in its UTF-8 encoding, so that \<open>!==\<close> on strings is
  inequality of byte lists. \<open>Date.now()\<close> is a whole number of milliseconds far below
  \<open>2^53\<close>, so the script's subtraction and comparison are exact and \<^typ>\<open>int\<close> models
  them.\<close>

text \<open>The object handed to \<open>http.postJson\<close>: its fields in the order the source writes
  them.\<close>

datatype json = JStr string | JBool bool

type_synonym payload = "(string \<times> json) list"

text \<open>The script's two globals, and what it has done to the outside world so far: the lines
  written with \<open>console.log\<close>, the calls of \<open>http.postJson\<close> (URL and object), the toasts
  shown and the number of \<open>sleep(CHECK_INTERVAL)\<close> calls completed.\<close>

record client =
  last_status :: string
  last_send_time :: int
  console :: "string list"
  posts :: "(string \<times> payload) list"
  toasts :: "string list"
  sleeps :: nat

text \<open>What \<open>check_status\<close> reads from the phone. \<open>app_label\<close> is
  \<open>app.getAppName(currentPackage())\<close>, \<open>null\<close> (here \<open>None\<close>) for a package without a
  label; \<open>battery\<close> is the number \<open>device.getBattery()\<close> as the template literal prints
  it.\<close>

record device =
  screen_on :: bool
  app_label :: "string option"
  battery :: string
  charging :: bool

text \<open>What one pass of the loop meets outside the script: the phone (\<open>Inl e\<close> when one of the
  device calls of \<open>check_status\<close> throws \<open>e\<close>), \<open>Date.now()\<close> in \<open>send_status\<close>, the
  outcome of \<open>http.postJson\<close> followed by \<open>r.body.string()\<close> (\<open>Inl e\<close> when either throws
  \<open>e\<close>, \<open>Inr body\<close> otherwise) and \<open>Date.now()\<close> in \<open>do_send\<close> after the response. An
  exception is the text \<open>${e}\<close> prints.\<close>

record tick_env =
  dev :: "string + device"
  now :: int
  post :: "string + string"
  sent_at :: int

text \<open>A call either throws (the exception and the state reached) or returns.\<close>

type_synonym result = "(string \<times> client) + client"

subsection \<open>log\<close>

text \<open>\<open>String.prototype.replace\<close> with a string pattern replaces the first occurrence only.
  The replacement \<open>'[SECRET]'\<close> has no \<open>$\<close>, so it is inserted as it is.\<close>

fun replace :: "string \<Rightarrow> string \<Rightarrow> string \<Rightarrow> string" where
  "replace [] pat rep = (if pat = [] then rep else [])"
| "replace (c # cs) pat rep =
     (if prefix pat (c # cs) then rep @ drop (length pat) (c # cs)
      else c # replace cs pat rep)"

text \<open>Every caller passes a template string, so \<open>msg.replace\<close> does not throw and the
  \<open>catch\<close> branch of \<open>log\<close> is never taken.\<close>

definition log_line :: "string \<Rightarrow> string" where
  "log_line msg = ''[dashboard] '' @ replace msg SECRET ''[SECRET]''"

definition log :: "string \<Rightarrow> client \<Rightarrow> client" where
  "log msg s = s\<lparr>console := console s @ [log_line msg]\<rparr>"

subsection \<open>check\_status\<close>

definition js_string :: "string option \<Rightarrow> string" where
  "js_string v = (case v of None \<Rightarrow> ''null'' | Some x \<Rightarrow> x)"

definition falsy :: "string option \<Rightarrow> bool" where
  "falsy v = (case v of None \<Rightarrow> True | Some x \<Rightarrow> x = [])"

definition check_status :: "device \<Rightarrow> string" where
  "check_status d =
     (if \<not> screen_on d then []
      else
        let app_name = app_label d;
            retname = (if charging d
                       then ''['' @ battery d @ ''% +] '' @ js_string app_name
                       else ''['' @ battery d @ ''%] '' @ js_string app_name)
        in if falsy app_name then [] else retname)"

subsection \<open>do\_send\<close>

definition push_payload :: "bool \<Rightarrow> string \<Rightarrow> payload" where
  "push_payload using app_name =
     [(''secret'', JStr SECRET), (''id'', JStr ID), (''show_name'', JStr SHOW_NAME),
      (''using'', JBool using), (''app_name'', JStr app_name)]"

text \<open>\<open>http.postJson(url, data)\<close> and the read of the response body: the call is made, then
  it throws or gives the body.\<close>

definition postJson :: "string + string \<Rightarrow> string \<Rightarrow> payload \<Rightarrow> client \<Rightarrow> (string \<times> client) + (string \<times> client)" where
  "postJson outcome url data s =
     (let s' = s\<lparr>posts := posts s @ [(url, data)]\<rparr>
      in case outcome of Inl e \<Rightarrow> Inl (e, s') | Inr body \<Rightarrow> Inr (body, s'))"

definition do_send :: "tick_env \<Rightarrow> string \<Rightarrow> client \<Rightarrow> client" where
  "do_send env app_name s =
     (let using = (app_name \<noteq> []);
          s1 = log (''POST '' @ API_URL) s
      in case postJson (post env) API_URL (push_payload using app_name) s1 of
           Inr (body, s2) \<Rightarrow> (log (''response: '' @ body) s2)\<lparr>last_send_time := sent_at env\<rparr>
         | Inl (e, s2) \<Rightarrow> log (''ERROR: '' @ e) s2)"

subsection \<open>send\_status\<close>

definition quoted :: "string \<Rightarrow> string" where
  "quoted x = [CHR 0x27] @ x @ [CHR 0x27]"

definition send_status :: "tick_env \<Rightarrow> client \<Rightarrow> result" where
  "send_status env s =
     (case dev env of
        Inl e \<Rightarrow> Inl (e, s)
      | Inr d \<Rightarrow>
          let app_name = check_status d;
              now = now env
          in if app_name \<noteq> last_status s
             then Inr (do_send env app_name
                        ((log (''status changed: '' @ quoted app_name) s)\<lparr>last_status := app_name\<rparr>))
             else if now - last_send_time s \<ge> HEARTBEAT_INTERVAL
             then Inr (do_send env app_name (log (''heartbeat: '' @ quoted app_name) s))
             else Inr (log ''same status, waiting for heartbeat'' s))"

subsection \<open>The exit handler\<close>

definition on_exit :: "string + string \<Rightarrow> client \<Rightarrow> client" where
  "on_exit outcome s =
     (let s1 = log ''Script exit, reporting offline'' s;
          s2 = s1\<lparr>toasts := toasts s1 @
                 [''[dashboard] '' @ [CHR 0xE8, CHR 0x84, CHR 0x9A, CHR 0xE6, CHR 0x9C, CHR 0xAC,
                                      CHR 0xE5, CHR 0x81, CHR 0x9C, CHR 0xE6, CHR 0xAD, CHR 0xA2]]\<rparr>
      in case postJson outcome API_URL (push_payload False []) s2 of
           Inr (body, s3) \<Rightarrow> s3
         | Inl (e, s3) \<Rightarrow> log (''Exit report error: '' @ e) s3)"

subsection \<open>The main loop\<close>

definition sleep :: "int \<Rightarrow> client \<Rightarrow> client" where
  "sleep ms s = s\<lparr>sleeps := Suc (sleeps s)\<rparr>"

definition loop_body :: "tick_env \<Rightarrow> client \<Rightarrow> result" where
  "loop_body env s =
     (let s' = (case send_status env s of
                  Inr s1 \<Rightarrow> s1
                | Inl (e, s1) \<Rightarrow> log (''ERROR: '' @ e) s1)
      in Inr (sleep CHECK_INTERVAL s'))"

text \<open>\<open>while (true)\<close> over the passes the script lives through, one \<open>tick_env\<close> each. An
  exception that leaves the loop body ends the loop.\<close>

fun main_loop :: "tick_env list \<Rightarrow> client \<Rightarrow> result" where
  "main_loop [] s = Inr s"
| "main_loop (env # envs) s =
     (case loop_body env s of
        Inl x \<Rightarrow> Inl x
      | Inr s' \<Rightarrow> main_loop envs s')"

text \<open>The globals as the script starts. \<open>auto.waitFor()\<close> only waits for the
  accessibility service; it changes nothing the model holds.\<close>

definition init :: client where
  "init = \<lparr>last_status = [], last_send_time = 0, console = [], posts = [], toasts = [], sleeps = 0\<rparr>"

text \<open>A whole run: the loop over the given passes, then the exit handler with the outcome of
  its own post.\<close>

definition run :: "tick_env list \<Rightarrow> string + string \<Rightarrow> client" where
  "run envs outcome =
     (case main_loop envs init of
        Inr s \<Rightarrow> on_exit outcome s
      | Inl (e, s) \<Rightarrow> on_exit outcome s)"

subsection \<open>Observing a run\<close>

text \<open>The state a call ends in, thrown or returned.\<close>

definition state_of :: "result \<Rightarrow> client" where
  "state_of r = (case r of Inl (e, s) \<Rightarrow> s | Inr s \<Rightarrow> s)"

text \<open>The \<open>http.postJson\<close> calls made during one pass of the loop.\<close>

definition pushed :: "tick_env \<Rightarrow> client \<Rightarrow> (string \<times> payload) list" where
  "pushed env s = drop (length (posts s)) (posts (state_of (loop_body env s)))"

text \<open>The push attempts of the loop in order, each with the pass that made it.\<close>

fun attempts :: "tick_env list \<Rightarrow> client \<Rightarrow> (tick_env \<times> string \<times> payload) list" where
  "attempts [] s = []"
| "attempts (env # envs) s =
     map (Pair env) (pushed env s) @ attempts envs (state_of (loop_body env s))"

text \<open>A field of a posted object, and the status string an attempt carries.\<close>

definition field :: "string \<Rightarrow> payload \<Rightarrow> json option" where
  "field k p = map_of p k"

definition status_of :: "tick_env \<times> string \<times> payload \<Rightarrow> json option" where
  "status_of a = field ''app_name'' (snd (snd a))"

text \<open>Two successive attempts with the same status are a heartbeat interval apart, by the
  clock readings of their passes, whatever became of the earlier one.\<close>

definition apart :: "tick_env \<times> string \<times> payload \<Rightarrow> tick_env \<times> string \<times> payload \<Rightarrow> bool" where
  "apart a b =
     (status_of a = status_of b \<longrightarrow> HEARTBEAT_INTERVAL \<le> now (fst b) - now (fst a))"

text \<open>The same when the earlier post went through, counted from the time \<open>do_send\<close> stored
  after it.\<close>

definition apart_after_success :: "tick_env \<times> string \<times> payload \<Rightarrow> tick_env \<times> string \<times> payload \<Rightarrow> bool" where
  "apart_after_success a b =
     (status_of a = status_of b \<and> \<not> isl (post (fst a)) \<longrightarrow>
        HEARTBEAT_INTERVAL \<le> now (fst b) - sent_at (fst a))"

text \<open>The wire format of a presence push, \<open>{secret, id, show_name, using: bool, app_name}\<close>:
  these five fields and no other, \<open>using\<close> a boolean and the rest strings.\<close>

definition is_str :: "json option \<Rightarrow> bool" where
  "is_str v = (case v of Some (JStr x) \<Rightarrow> True | _ \<Rightarrow> False)"

definition is_bool :: "json option \<Rightarrow> bool" where
  "is_bool v = (case v of Some (JBool b) \<Rightarrow> True | _ \<Rightarrow> False)"

definition presence_push_format :: "payload \<Rightarrow> bool" where
  "presence_push_format p \<longleftrightarrow>
     distinct (map fst p) \<and>
     set (map fst p) = {''secret'', ''id'', ''show_name'', ''using'', ''app_name''} \<and>
     is_str (field ''secret'' p) \<and> is_str (field ''id'' p) \<and> is_str (field ''show_name'' p) \<and>
     is_bool (field ''using'' p) \<and> is_str (field ''app_name'' p)"

section \<open>The server side, from the specification\<close>

text \<open>The client posts to the dashboard's backend. The backend's code is not part of the
  sources at hand; the parts of it below are written down from the specification.\<close>

subsection \<open>Task Store\<close>





subsection \<open>Reminder Scheduler\<close>












subsection \<open>Recurrence Evaluator: Monthly rules\<close>

text \<open>Modelled from the spec: the calendar the missing Recurrence Evaluator works on. A date
  is year, month, day; an occurrence identity is the \<open>(date, hour)\<close> tuple the spec
  suggests.\<close>

type_synonym date = "int \<times> nat \<times> nat"

type_synonym occurrence = "date \<times> nat"

text \<open>Modelled from the spec: the month lengths of the calendar the missing evaluator uses
  (February has 28 or 29 days).\<close>

definition leap_year :: "int \<Rightarrow> bool" where
  "leap_year y \<longleftrightarrow> y mod 4 = 0 \<and> (y mod 100 \<noteq> 0 \<or> y mod 400 = 0)"

definition days_in_month :: "int \<Rightarrow> nat \<Rightarrow> nat" where
  "days_in_month y m =
     (if m = 2 then (if leap_year y then 29 else 28)
      else if m \<in> {4, 6, 9, 11} then 30
      else if 1 \<le> m \<and> m \<le> 12 then 31
      else 0)"

definition day_of :: "occurrence \<Rightarrow> nat" where
  "day_of oc = snd (snd (fst oc))"

text \<open>Modelled from the spec: the occurrences of a rule \<open>Monthly{days, hour}\<close> of the missing
  Recurrence Evaluator in month \<open>m\<close> of year \<open>y\<close>: one per listed day of the month, a listed
  day that the month does not have being skipped.\<close>

definition monthly_occurrences :: "nat set \<Rightarrow> nat \<Rightarrow> int \<Rightarrow> nat \<Rightarrow> occurrence set" where
  "monthly_occurrences days hour y m =
     (\<lambda>d. ((y, m, d), hour)) ` {d \<in> days. 1 \<le> d \<and> d \<le> days_in_month y m}"

subsection \<open>Presence Tracker\<close>

text \<open>Modelled from the spec: the Device Presence Record \<open>{device_id, show_name, using,
  app_name, last_seen}\<close> of the missing Presence Tracker (\<open>backend/mobile_device.py\<close>), with
  \<open>last_seen\<close> in seconds, and the inbound push without its secret, which the caller has
  checked.\<close>

record presence =
  device_id :: string
  show_name :: string
  is_using :: bool
  app_name :: string
  last_seen :: int

record push =
  push_id :: string
  push_show_name :: string
  push_using :: bool
  push_app_name :: string

text \<open>Modelled from the spec: the states \<open>Unknown\<close>, \<open>Online\<close>, \<open>Offline\<close> of a device in
  the missing Presence Tracker.\<close>

datatype liveness = Unknown | Online | Offline

text \<open>Modelled from the spec: the missing handler of an inbound push. It sets \<open>last_seen\<close>
  unconditionally and \<open>app_name\<close> and \<open>using\<close> only if they changed; a device not seen
  before gets a record. The spec does not say what becomes of the \<open>show_name\<close> of a known
  device; it stays as stored.\<close>

definition receive_push :: "int \<Rightarrow> push \<Rightarrow> (string \<rightharpoonup> presence) \<Rightarrow> (string \<rightharpoonup> presence)" where
  "receive_push clock p tracker =
     (case tracker (push_id p) of
        None \<Rightarrow>
          tracker(push_id p \<mapsto>
            \<lparr>device_id = push_id p, show_name = push_show_name p, is_using = push_using p,
             app_name = push_app_name p, last_seen = clock\<rparr>)
      | Some r \<Rightarrow>
          tracker(push_id p \<mapsto>
            (if is_using r \<noteq> push_using p \<or> app_name r \<noteq> push_app_name p
             then r\<lparr>is_using := push_using p, app_name := push_app_name p\<rparr>
             else r)\<lparr>last_seen := clock\<rparr>))"

text \<open>Modelled from the spec: what the missing Presence Tracker reports for a device at
  the instant \<open>clock\<close>: \<open>Unknown\<close> before the first push, \<open>Offline\<close> when
  \<open>clock - last_seen > timeout_seconds\<close>, \<open>Online\<close> otherwise.\<close>

definition liveness_of :: "int \<Rightarrow> int \<Rightarrow> (string \<rightharpoonup> presence) \<Rightarrow> string \<Rightarrow> liveness" where
  "liveness_of timeout_seconds clock tracker i =
     (case tracker i of
        None \<Rightarrow> Unknown
      | Some r \<Rightarrow> if clock - last_seen r > timeout_seconds then Offline else Online)"

section \<open>Sample inputs\<close>

definition phone :: device where
  "phone = \<lparr>screen_on = True, app_label = Some ''WeChat'', battery = ''85'', charging = False\<rparr>"

definition phone_dark :: device where
  "phone_dark = \<lparr>screen_on = False, app_label = Some ''WeChat'', battery = ''85'', charging = True\<rparr>"

definition pass_fail :: tick_env where
  "pass_fail = \<lparr>dev = Inr phone, now = 1700000000000, post = Inl ''timeout'', sent_at = 1700000000200\<rparr>"

definition pass_ok :: tick_env where
  "pass_ok = \<lparr>dev = Inr phone, now = 1700000003000, post = Inr ''ok'', sent_at = 1700000003200\<rparr>"

definition pass_soon :: tick_env where
  "pass_soon = \<lparr>dev = Inr phone, now = 1700000006000, post = Inr ''ok'', sent_at = 1700000006200\<rparr>"

definition pass_late :: tick_env where
  "pass_late = \<lparr>dev = Inr phone, now = 1700000015000, post = Inr ''ok'', sent_at = 1700000015200\<rparr>"

definition pass_dark_ok :: tick_env where
  "pass_dark_ok = \<lparr>dev = Inr phone_dark, now = 1700000000000, post = Inr ''ok'', sent_at = 1700000000200\<rparr>"

definition pass_broken :: tick_env where
  "pass_broken = \<lparr>dev = Inl ''no accessibility service'', now = 1700000021000, post = Inr ''ok'',
                   sent_at = 1700000021200\<rparr>"

definition pass_change_fail :: tick_env where
  "pass_change_fail = \<lparr>dev = Inr phone, now = 1700000003000, post = Inl ''timeout'',
                        sent_at = 1700000003200\<rparr>"

text \<open>A pass whose response echoes the secret twice.\<close>

definition pass_echo :: tick_env where
  "pass_echo = \<lparr>dev = Inr phone, now = 1700000000000, post = Inr (SECRET @ '' '' @ SECRET),
                 sent_at = 1700000000200\<rparr>"

text \<open>The globals after \<open>pass_fail\<close> and \<open>pass_ok\<close>.\<close>

definition sent_wechat :: client where
  "sent_wechat = init\<lparr>last_status := ''[85%] WeChat'', last_send_time := 1700000003200\<rparr>"

text \<open>A sample evaluator on instants counted in hours: a rule is a period in hours, the
  occurrence due at an instant is the number of the period it falls in.\<close>

definition every :: "nat \<Rightarrow> nat \<Rightarrow> nat option" where
  "every period clock = (if period = 0 then None else Some (clock div period))"


definition phone_push :: push where
  "phone_push = \<lparr>push_id = ''phone'', push_show_name = ''Phone'', push_using = True,
                 push_app_name = ''[85%] WeChat''\<rparr>"

section \<open>Properties of the client\<close>

subsection \<open>One pass of the loop\<close>

lemma send_status_throw: "dev env = Inl e \<Longrightarrow> send_status env s = Inl (e, s)"
  by (simp add: send_status_def)

lemma send_status_return:
  assumes "dev env = Inr d"
  shows "\<exists>s'. send_status env s = Inr s' \<and>
          posts s' = (if check_status d \<noteq> last_status s \<or> HEARTBEAT_INTERVAL \<le> now env - last_send_time s
                      then posts s @ [(API_URL, push_payload (check_status d \<noteq> []) (check_status d))]
                      else posts s) \<and>
          last_status s' = check_status d \<and>
          last_send_time s' = (if (check_status d \<noteq> last_status s \<or> HEARTBEAT_INTERVAL \<le> now env - last_send_time s) \<and> \<not> isl (post env)
                      then sent_at env else last_send_time s) \<and>
          sleeps s' = sleeps s"
  using assms
  by (auto simp add: send_status_def do_send_def postJson_def log_def Let_def split: sum.splits)

lemma loop_body_throw:
  "dev env = Inl e \<Longrightarrow> loop_body env s = Inr (sleep CHECK_INTERVAL (log (''ERROR: '' @ e) s))"
  by (simp add: loop_body_def send_status_throw)

lemma loop_body_return:
  assumes "dev env = Inr d"
  shows "\<exists>s'. loop_body env s = Inr s' \<and>
          posts s' = (if check_status d \<noteq> last_status s \<or> HEARTBEAT_INTERVAL \<le> now env - last_send_time s
                      then posts s @ [(API_URL, push_payload (check_status d \<noteq> []) (check_status d))]
                      else posts s) \<and>
          last_status s' = check_status d \<and>
          last_send_time s' = (if (check_status d \<noteq> last_status s \<or> HEARTBEAT_INTERVAL \<le> now env - last_send_time s) \<and> \<not> isl (post env)
                      then sent_at env else last_send_time s) \<and>
          sleeps s' = Suc (sleeps s)"
proof -
  from send_status_return [OF assms, of s] obtain s1 where
    s1: "send_status env s = Inr s1"
      and rest: "posts s1 = (if check_status d \<noteq> last_status s \<or> HEARTBEAT_INTERVAL \<le> now env - last_send_time s
                      then posts s @ [(API_URL, push_payload (check_status d \<noteq> []) (check_status d))]
                      else posts s)"
         "last_status s1 = check_status d"
         "last_send_time s1 = (if (check_status d \<noteq> last_status s \<or> HEARTBEAT_INTERVAL \<le> now env - last_send_time s) \<and> \<not> isl (post env)
                      then sent_at env else last_send_time s)"
         "sleeps s1 = sleeps s"
    by blast
  have "loop_body env s = Inr (sleep CHECK_INTERVAL s1)"
    by (simp add: loop_body_def s1)
  with rest show ?thesis
    by (simp add: sleep_def)
qed

lemma loop_body_total: "\<exists>s'. loop_body env s = Inr s' \<and> sleeps s' = Suc (sleeps s)"
proof (cases "dev env")
  case (Inl e)
  then show ?thesis by (simp add: loop_body_throw sleep_def log_def)
next
  case (Inr d)
  from loop_body_return [OF this, of s] show ?thesis by blast
qed

lemma main_loop_total: "\<exists>s'. main_loop envs s = Inr s' \<and> sleeps s' = sleeps s + length envs"
proof (induction envs arbitrary: s)
  case Nil
  show ?case by simp
next
  case (Cons env envs)
  obtain s1 where s1: "loop_body env s = Inr s1" "sleeps s1 = Suc (sleeps s)"
    using loop_body_total by blast
  from Cons.IH [of s1] s1 show ?case by simp
qed

lemma pushed_throw: "dev env = Inl e \<Longrightarrow> pushed env s = []"
  by (simp add: pushed_def loop_body_throw state_of_def sleep_def log_def)

lemma pushed_return:
  assumes "dev env = Inr d"
  shows "pushed env s = (if check_status d \<noteq> last_status s \<or> HEARTBEAT_INTERVAL \<le> now env - last_send_time s
                      then [(API_URL, push_payload (check_status d \<noteq> []) (check_status d))]
                      else [])"
  using loop_body_return [OF assms, of s]
  by (auto simp: pushed_def state_of_def)

lemma loop_body_state_of: "loop_body env s = Inr (state_of (loop_body env s))"
  using loop_body_total [of env s] by (auto simp: state_of_def)

lemma main_loop_step:
  "main_loop (env # envs) s = main_loop envs (state_of (loop_body env s))"
  using loop_body_state_of [of env s] by (metis main_loop.simps(2) sum.case(2))

lemma state_of_loop_body_throw:
  assumes "dev env = Inl e"
  shows "last_status (state_of (loop_body env s)) = last_status s"
    and "last_send_time (state_of (loop_body env s)) = last_send_time s"
    and "posts (state_of (loop_body env s)) = posts s"
  using assms by (simp_all add: loop_body_throw state_of_def sleep_def log_def)

lemma state_of_loop_body_return:
  assumes "dev env = Inr d"
  shows "last_status (state_of (loop_body env s)) = check_status d"
    and "last_send_time (state_of (loop_body env s)) =
           (if pushed env s \<noteq> [] \<and> \<not> isl (post env) then sent_at env else last_send_time s)"
    and "posts (state_of (loop_body env s)) = posts s @ pushed env s"
  using loop_body_return [OF assms, of s] pushed_return [OF assms, of s]
  by (auto simp: state_of_def)

lemma posts_loop_body: "posts (state_of (loop_body env s)) = posts s @ pushed env s"
  by (cases "dev env") (simp_all add: state_of_loop_body_throw state_of_loop_body_return pushed_throw)

lemma do_send_last_send_time:
  "last_send_time (do_send env a s) = (if isl (post env) then last_send_time s else sent_at env)"
  by (cases "post env") (simp_all add: do_send_def postJson_def log_def Let_def)

lemma check_status_dark: "\<not> screen_on d \<Longrightarrow> check_status d = []"
  by (simp add: check_status_def)

subsection \<open>What is posted\<close>

lemma pushed_shape:
  "c \<in> set (pushed env s) \<Longrightarrow> \<exists>a. c = (API_URL, push_payload (a \<noteq> []) a)"
  by (cases "dev env") (auto simp: pushed_throw pushed_return split: if_splits)

lemma main_loop_posts_shape:
  assumes "\<forall>c\<in>set (posts s). \<exists>a. c = (API_URL, push_payload (a \<noteq> []) a)"
  shows "\<forall>c\<in>set (posts (state_of (main_loop envs s))). \<exists>a. c = (API_URL, push_payload (a \<noteq> []) a)"
  using assms
proof (induction envs arbitrary: s)
  case Nil
  then show ?case by (simp add: state_of_def)
next
  case (Cons env envs)
  have step: "main_loop (env # envs) s = main_loop envs (state_of (loop_body env s))"
    using loop_body_state_of [of env s] by (metis main_loop.simps(2) sum.case(2))
  have "\<forall>c\<in>set (posts (state_of (loop_body env s))). \<exists>a. c = (API_URL, push_payload (a \<noteq> []) a)"
    using Cons.prems pushed_shape [of _ env s] by (auto simp: posts_loop_body)
  from Cons.IH [OF this] show ?case by (simp only: step)
qed

lemma posts_on_exit: "posts (on_exit x s) = posts s @ [(API_URL, push_payload False [])]"
  by (cases x) (simp_all add: on_exit_def postJson_def log_def Let_def)

lemma run_state_of: "run envs x = on_exit x (state_of (main_loop envs init))"
  by (simp add: run_def state_of_def split: sum.splits)

lemma run_posts_shape:
  assumes "c \<in> set (posts (run envs x))"
  shows "\<exists>a. c = (API_URL, push_payload (a \<noteq> []) a)"
proof -
  have loop: "\<forall>c\<in>set (posts (state_of (main_loop envs init))). \<exists>a. c = (API_URL, push_payload (a \<noteq> []) a)"
    by (rule main_loop_posts_shape) (simp add: init_def)
  from assms have "c \<in> set (posts (state_of (main_loop envs init))) \<or> c = (API_URL, push_payload False [])"
    by (auto simp add: run_state_of posts_on_exit)
  then show ?thesis
  proof
    assume "c \<in> set (posts (state_of (main_loop envs init)))"
    with loop show ?thesis by blast
  next
    assume "c = (API_URL, push_payload False [])"
    then have "c = (API_URL, push_payload (([]::string) \<noteq> []) [])" by simp
    then show ?thesis by (rule exI)
  qed
qed

lemma push_payload_format: "presence_push_format (push_payload u a)"
  by (auto simp add: presence_push_format_def push_payload_def field_def is_str_def is_bool_def)

lemma push_payload_fields:
  "field ''using'' (push_payload u a) = Some (JBool u)"
  "field ''app_name'' (push_payload u a) = Some (JStr a)"
  by (simp_all add: push_payload_def field_def)

lemma status_of_push: "status_of (env, API_URL, push_payload u a) = Some (JStr a)"
  by (simp add: status_of_def push_payload_fields)

subsection \<open>Successive attempts\<close>

lemma pushed_cases:
  obtains (none) "pushed env s = []"
      "last_status (state_of (loop_body env s)) = last_status s"
      "last_send_time (state_of (loop_body env s)) = last_send_time s"
  | (change) d where "dev env = Inr d" "check_status d \<noteq> last_status s"
      "pushed env s = [(API_URL, push_payload (check_status d \<noteq> []) (check_status d))]"
      "last_status (state_of (loop_body env s)) = check_status d"
      "\<not> isl (post env) \<Longrightarrow> last_send_time (state_of (loop_body env s)) = sent_at env"
  | (heartbeat) d where "dev env = Inr d" "check_status d = last_status s"
      "HEARTBEAT_INTERVAL \<le> now env - last_send_time s"
      "pushed env s = [(API_URL, push_payload (check_status d \<noteq> []) (check_status d))]"
      "last_status (state_of (loop_body env s)) = check_status d"
      "\<not> isl (post env) \<Longrightarrow> last_send_time (state_of (loop_body env s)) = sent_at env"
proof (cases "dev env")
  case (Inl e)
  then show ?thesis
    using none by (simp add: pushed_throw state_of_loop_body_throw)
next
  case (Inr d)
  note facts = pushed_return [OF Inr, of s] state_of_loop_body_return [OF Inr, of s]
  consider "check_status d \<noteq> last_status s"
    | "check_status d = last_status s" "HEARTBEAT_INTERVAL \<le> now env - last_send_time s"
    | "check_status d = last_status s" "\<not> HEARTBEAT_INTERVAL \<le> now env - last_send_time s"
    by blast
  then show ?thesis
  proof cases
    case 1
    with facts Inr show ?thesis using change [of d] by simp
  next
    case 2
    with facts Inr show ?thesis using heartbeat [of d] by simp
  next
    case 3
    with facts Inr show ?thesis using none by simp
  qed
qed

lemma first_attempt_is_heartbeat:
  assumes "attempts envs s = a # rest" and "status_of a = Some (JStr (last_status s))"
  shows "HEARTBEAT_INTERVAL \<le> now (fst a) - last_send_time s"
  using assms
proof (induction envs arbitrary: s)
  case Nil
  then show ?case by simp
next
  case (Cons env envs)
  show ?case
  proof (cases rule: pushed_cases [of env s])
    case none
    with Cons.prems have "attempts envs (state_of (loop_body env s)) = a # rest"
      and "status_of a = Some (JStr (last_status (state_of (loop_body env s))))"
      by simp_all
    from Cons.IH [OF this] none show ?thesis by simp
  next
    case (change d)
    with Cons.prems have "a = (env, API_URL, push_payload (check_status d \<noteq> []) (check_status d))"
      by simp
    with Cons.prems(2) change(2) show ?thesis
      by (simp add: status_of_push)
  next
    case (heartbeat d)
    with Cons.prems have "a = (env, API_URL, push_payload (check_status d \<noteq> []) (check_status d))"
      by simp
    with heartbeat(3) show ?thesis by simp
  qed
qed

subsection \<open>The sample inputs evaluated\<close>

lemma check_status_phone: "check_status phone = ''[85%] WeChat''"
  by (simp add: phone_def check_status_def falsy_def js_string_def)

lemma check_status_phone_dark: "check_status phone_dark = []"
  by (simp add: check_status_dark phone_dark_def)

lemma init_fields:
  "last_status init = []" "last_send_time init = 0" "posts init = []" "console init = []"
  by (simp_all add: init_def)

lemma pass_fail_fields:
  "dev pass_fail = Inr phone" "now pass_fail = 1700000000000" "post pass_fail = Inl ''timeout''"
  "sent_at pass_fail = 1700000000200"
  by (simp_all add: pass_fail_def)

lemma pass_ok_fields:
  "dev pass_ok = Inr phone" "now pass_ok = 1700000003000" "post pass_ok = Inr ''ok''"
  "sent_at pass_ok = 1700000003200"
  by (simp_all add: pass_ok_def)

lemma pass_soon_fields:
  "dev pass_soon = Inr phone" "now pass_soon = 1700000006000" "post pass_soon = Inr ''ok''"
  "sent_at pass_soon = 1700000006200"
  by (simp_all add: pass_soon_def)

lemma pass_late_fields:
  "dev pass_late = Inr phone" "now pass_late = 1700000015000" "post pass_late = Inr ''ok''"
  "sent_at pass_late = 1700000015200"
  by (simp_all add: pass_late_def)

lemma pass_dark_ok_fields:
  "dev pass_dark_ok = Inr phone_dark" "now pass_dark_ok = 1700000000000"
  "post pass_dark_ok = Inr ''ok''" "sent_at pass_dark_ok = 1700000000200"
  by (simp_all add: pass_dark_ok_def)

lemma pass_change_fail_fields:
  "dev pass_change_fail = Inr phone" "now pass_change_fail = 1700000003000"
  "post pass_change_fail = Inl ''timeout''" "sent_at pass_change_fail = 1700000003200"
  by (simp_all add: pass_change_fail_def)

lemma posts_sample_run:
  "posts (run [pass_fail, pass_ok] (Inr ''ok'')) =
     [(API_URL, push_payload True ''[85%] WeChat''), (API_URL, push_payload True ''[85%] WeChat''),
      (API_URL, push_payload False [])]"
  by (simp add: run_def loop_body_def send_status_def do_send_def postJson_def on_exit_def
        log_def sleep_def init_def pass_fail_def pass_ok_def phone_def check_status_def falsy_def
        js_string_def HEARTBEAT_INTERVAL_def Let_def)

lemma attempts_sample_ok:
  "attempts [pass_ok, pass_soon, pass_late] init =
     [(pass_ok, API_URL, push_payload True ''[85%] WeChat''),
      (pass_late, API_URL, push_payload True ''[85%] WeChat'')]"
proof -
  note d = pass_ok_fields(1) pass_soon_fields(1) pass_late_fields(1)
  have 1: "pushed pass_ok init = [(API_URL, push_payload True ''[85%] WeChat'')]"
    by (simp add: pushed_return [OF d(1)] check_status_phone init_fields)
  let ?s1 = "state_of (loop_body pass_ok init)"
  have s1: "last_status ?s1 = ''[85%] WeChat''" "last_send_time ?s1 = 1700000003200"
    by (simp_all add: state_of_loop_body_return [OF d(1)] 1 check_status_phone pass_ok_fields)
  have 2: "pushed pass_soon ?s1 = []"
    by (simp add: pushed_return [OF d(2)] check_status_phone s1 pass_soon_fields HEARTBEAT_INTERVAL_def)
  let ?s2 = "state_of (loop_body pass_soon ?s1)"
  have s2: "last_status ?s2 = ''[85%] WeChat''" "last_send_time ?s2 = 1700000003200"
    by (simp_all add: state_of_loop_body_return [OF d(2)] 2 check_status_phone s1)
  have 3: "pushed pass_late ?s2 = [(API_URL, push_payload True ''[85%] WeChat'')]"
    by (simp add: pushed_return [OF d(3)] check_status_phone s2 pass_late_fields HEARTBEAT_INTERVAL_def)
  show ?thesis by (simp add: 1 2 3)
qed

lemma attempts_sample_fail:
  "attempts [pass_fail, pass_ok] init =
     [(pass_fail, API_URL, push_payload True ''[85%] WeChat''),
      (pass_ok, API_URL, push_payload True ''[85%] WeChat'')]"
proof -
  note d = pass_fail_fields(1) pass_ok_fields(1)
  have 1: "pushed pass_fail init = [(API_URL, push_payload True ''[85%] WeChat'')]"
    by (simp add: pushed_return [OF d(1)] check_status_phone init_fields)
  let ?s1 = "state_of (loop_body pass_fail init)"
  have s1: "last_status ?s1 = ''[85%] WeChat''" "last_send_time ?s1 = 0"
    by (simp_all add: state_of_loop_body_return [OF d(1)] 1 check_status_phone pass_fail_fields init_fields)
  have 2: "pushed pass_ok ?s1 = [(API_URL, push_payload True ''[85%] WeChat'')]"
    by (simp add: pushed_return [OF d(2)] check_status_phone s1 pass_ok_fields HEARTBEAT_INTERVAL_def)
  show ?thesis by (simp add: 1 2)
qed

section \<open>Properties of the modelled server\<close>

subsection \<open>A tick, task by task\<close>
















subsection \<open>No Fire Event twice\<close>


subsection \<open>Calendar, presence and the samples\<close>

lemma february: "days_in_month y 2 \<le> 29"
  by (simp add: days_in_month_def)

lemma receive_push_last_seen:
  "\<exists>r. receive_push seen p tracker (push_id p) = Some r \<and> last_seen r = seen"
  by (simp add: receive_push_def split: option.splits)



section \<open>The claims\<close>

text \<open>
  C1. On every pass, when \<open>check_status\<close> returns, \<open>send_status\<close> makes exactly one
  \<open>http.postJson\<close> call if the status differs from \<open>last_status\<close> or at least
  \<open>HEARTBEAT_INTERVAL\<close> milliseconds have passed since \<open>last_send_time\<close>, and no call
  otherwise.
\<close>

theorem send_status_pushes_iff_changed_or_heartbeat:
  assumes "dev env = Inr d"
  shows "(\<exists>s'. send_status env s = Inr s' \<and> posts s' = posts s @ pushed env s) \<and>
         pushed env s =
           (if check_status d \<noteq> last_status s \<or> HEARTBEAT_INTERVAL \<le> now env - last_send_time s
            then [(API_URL, push_payload (check_status d \<noteq> []) (check_status d))]
            else [])"
  using send_status_return [OF assms, of s] pushed_return [OF assms, of s]
  by auto

theorem send_status_pushes_iff_changed_or_heartbeat_witness:
  "dev pass_soon = Inr phone \<and> pushed pass_soon sent_wechat = [] \<and>
   dev pass_late = Inr phone \<and>
   pushed pass_late sent_wechat = [(API_URL, push_payload True ''[85%] WeChat'')]"
proof -
  have a: "dev pass_soon = Inr phone" and b: "dev pass_late = Inr phone"
    by (simp_all add: pass_soon_def pass_late_def)
  have c: "check_status phone = ''[85%] WeChat''"
    by (simp add: phone_def check_status_def falsy_def js_string_def)
  have d: "last_status sent_wechat = ''[85%] WeChat''" "last_send_time sent_wechat = 1700000003200"
    by (simp_all add: sent_wechat_def)
  have e: "now pass_soon = 1700000006000" "now pass_late = 1700000015000"
    by (simp_all add: pass_soon_def pass_late_def)
  from send_status_pushes_iff_changed_or_heartbeat [OF a, of sent_wechat]
  have "pushed pass_soon sent_wechat = []"
    by (simp add: c d e HEARTBEAT_INTERVAL_def)
  moreover from send_status_pushes_iff_changed_or_heartbeat [OF b, of sent_wechat]
  have "pushed pass_late sent_wechat = [(API_URL, push_payload True ''[85%] WeChat'')]"
    by (simp add: c d e HEARTBEAT_INTERVAL_def)
  ultimately show ?thesis using a b by simp
qed

text \<open>
  C2. Every object the client posts, from \<open>do_send\<close> during the loop and from the exit
  handler, goes to \<open>API_URL\<close> and has exactly the five fields \<open>secret\<close>, \<open>id\<close>,
  \<open>show_name\<close>, \<open>using\<close> and \<open>app_name\<close>, \<open>using\<close> being a boolean and the others
  strings.
\<close>

theorem every_push_has_wire_format:
  "\<forall>c\<in>set (posts (run envs outcome)). fst c = API_URL \<and> presence_push_format (snd c)"
  using run_posts_shape [of _ envs outcome] push_payload_format by fastforce

theorem every_push_has_wire_format_witness:
  "(API_URL, push_payload True ''[85%] WeChat'') \<in> set (posts (run [pass_fail, pass_ok] (Inr ''ok''))) \<and>
   presence_push_format (push_payload True ''[85%] WeChat'')"
  using every_push_has_wire_format [of "[pass_fail, pass_ok]" "Inr ''ok''"]
  by (simp add: posts_sample_run)

text \<open>
  C3, as amended. Of two successive push attempts of the loop with the same status string,
  the earlier of which went through, the later is made on a pass whose clock reading is at
  least \<open>HEARTBEAT_INTERVAL\<close> milliseconds after the time stored on the earlier success.
  This holds from any state of the script, so in every execution from \<open>init\<close>.
\<close>

theorem unchanged_status_resent_only_after_heartbeat:
  "successively apart_after_success (attempts envs s)"
proof (induction envs arbitrary: s)
  case Nil
  show ?case by simp
next
  case (Cons env envs)
  let ?s' = "state_of (loop_body env s)"
  have pushing: "successively apart_after_success ((env, API_URL, push_payload u a) # attempts envs ?s')"
    if "last_status ?s' = a"
      and "\<not> isl (post env) \<Longrightarrow> last_send_time ?s' = sent_at env" for u a
  proof (cases "attempts envs ?s'")
    case Nil
    then show ?thesis by simp
  next
    case (Cons b rest)
    have "apart_after_success (env, API_URL, push_payload u a) b"
      unfolding apart_after_success_def
    proof
      assume h: "status_of (env, API_URL, push_payload u a) = status_of b \<and>
                 \<not> isl (post (fst (env, API_URL, push_payload u a)))"
      then have "status_of b = Some (JStr (last_status ?s'))"
        using that(1) by (simp add: status_of_push)
      from first_attempt_is_heartbeat [OF Cons this] h that(2)
      show "HEARTBEAT_INTERVAL \<le> now (fst b) - sent_at (fst (env, API_URL, push_payload u a))"
        by simp
    qed
    with Cons Cons.IH [of ?s'] show ?thesis
      by (simp add: successively_Cons)
  qed
  show ?case
  proof (cases rule: pushed_cases [of env s])
    case none
    with Cons.IH [of ?s'] show ?thesis by simp
  next
    case (change d)
    with pushing [of "check_status d"] show ?thesis by simp
  next
    case (heartbeat d)
    with pushing [of "check_status d"] show ?thesis by simp
  qed
qed

theorem unchanged_status_resent_only_after_heartbeat_witness:
  "attempts [pass_ok, pass_soon, pass_late] init =
     [(pass_ok, API_URL, push_payload True ''[85%] WeChat''),
      (pass_late, API_URL, push_payload True ''[85%] WeChat'')] \<and>
   status_of (pass_ok, API_URL, push_payload True ''[85%] WeChat'') =
     status_of (pass_late, API_URL, push_payload True ''[85%] WeChat'') \<and>
   \<not> isl (post pass_ok) \<and>
   HEARTBEAT_INTERVAL \<le> now pass_late - sent_at pass_ok"
proof -
  have a: "status_of (pass_ok, API_URL, push_payload True ''[85%] WeChat'') =
     status_of (pass_late, API_URL, push_payload True ''[85%] WeChat'')"
    by (simp add: status_of_def)
  have b: "\<not> isl (post pass_ok)"
    by (simp add: pass_ok_fields)
  from unchanged_status_resent_only_after_heartbeat [of "[pass_ok, pass_soon, pass_late]" init]
  have "successively apart_after_success
          [(pass_ok, API_URL, push_payload True ''[85%] WeChat''),
           (pass_late, API_URL, push_payload True ''[85%] WeChat'')]"
    by (simp only: attempts_sample_ok)
  then have "apart_after_success (pass_ok, API_URL, push_payload True ''[85%] WeChat'')
          (pass_late, API_URL, push_payload True ''[85%] WeChat'')"
    by simp
  with a b have "HEARTBEAT_INTERVAL \<le> now pass_late - sent_at pass_ok"
    by (simp add: apart_after_success_def)
  with a b attempts_sample_ok show ?thesis by simp
qed

text \<open>
  C3 as stated does not hold: after a post that throws, the unchanged status is sent again on
  the next pass, three seconds later.
\<close>

theorem failed_push_resent_within_heartbeat:
  "attempts [pass_fail, pass_ok] init =
     [(pass_fail, API_URL, push_payload True ''[85%] WeChat''),
      (pass_ok, API_URL, push_payload True ''[85%] WeChat'')] \<and>
   now pass_ok - now pass_fail = 3000 \<and>
   \<not> successively apart (attempts [pass_fail, pass_ok] init)"
  by (simp add: attempts_sample_fail apart_def status_of_def pass_ok_fields pass_fail_fields
      HEARTBEAT_INTERVAL_def del: attempts.simps)

text \<open>
  C4. No exception leaves the loop body: whatever the passes meet, the loop gets through all
  of them, sleeping once after each. An exception thrown by \<open>check_status\<close> is caught by the
  loop and logged, a post that throws is caught by \<open>do_send\<close> and logged, and in both cases
  the loop goes on with the next pass.
\<close>

theorem push_failures_are_caught:
  "(\<exists>s'. main_loop envs s = Inr s' \<and> sleeps s' = sleeps s + length envs) \<and>
   (\<forall>e. dev env1 = Inl e \<longrightarrow>
      (\<exists>s'. loop_body env1 s1 = Inr s' \<and> console s' = console s1 @ [log_line (''ERROR: '' @ e)] \<and>
            posts s' = posts s1 \<and> main_loop (env1 # rest1) s1 = main_loop rest1 s')) \<and>
   (\<forall>e. post env2 = Inl e \<and> pushed env2 s2 \<noteq> [] \<longrightarrow>
      (\<exists>s'. loop_body env2 s2 = Inr s' \<and> last (console s') = log_line (''ERROR: '' @ e) \<and>
            main_loop (env2 # rest2) s2 = main_loop rest2 s'))"
proof (intro conjI allI impI)
  show "\<exists>s'. main_loop envs s = Inr s' \<and> sleeps s' = sleeps s + length envs"
    by (rule main_loop_total)
next
  fix e assume "dev env1 = Inl e"
  then show "\<exists>s'. loop_body env1 s1 = Inr s' \<and> console s' = console s1 @ [log_line (''ERROR: '' @ e)] \<and>
            posts s' = posts s1 \<and> main_loop (env1 # rest1) s1 = main_loop rest1 s'"
    by (simp add: loop_body_throw sleep_def log_def)
next
  fix e assume a: "post env2 = Inl e \<and> pushed env2 s2 \<noteq> []"
  then obtain d where d: "dev env2 = Inr d"
    by (cases "dev env2") (auto simp: pushed_throw)
  with a have "check_status d \<noteq> last_status s2 \<or> HEARTBEAT_INTERVAL \<le> now env2 - last_send_time s2"
    by (auto simp: pushed_return split: if_splits)
  with a d show "\<exists>s'. loop_body env2 s2 = Inr s' \<and> last (console s') = log_line (''ERROR: '' @ e) \<and>
            main_loop (env2 # rest2) s2 = main_loop rest2 s'"
    by (auto simp: loop_body_def send_status_def do_send_def postJson_def log_def sleep_def Let_def)
qed

theorem push_failures_are_caught_witness:
  "(\<exists>s'. main_loop [pass_fail, pass_broken, pass_ok] init = Inr s' \<and> sleeps s' = 3) \<and>
   dev pass_broken = Inl ''no accessibility service'' \<and>
   (\<exists>s'. loop_body pass_broken init = Inr s' \<and>
         console s' = [''[dashboard] ERROR: no accessibility service'']) \<and>
   post pass_fail = Inl ''timeout'' \<and> pushed pass_fail init \<noteq> [] \<and>
   (\<exists>s'. loop_body pass_fail init = Inr s' \<and> last (console s') = ''[dashboard] ERROR: timeout'')"
proof -
  have a: "dev pass_broken = Inl ''no accessibility service''"
    by (simp add: pass_broken_def)
  have b: "post pass_fail = Inl ''timeout'' \<and> pushed pass_fail init \<noteq> []"
    by (simp add: pass_fail_def pushed_def loop_body_def send_status_def do_send_def postJson_def
        log_def sleep_def state_of_def init_def phone_def check_status_def falsy_def js_string_def
        Let_def)
  have c: "log_line ''ERROR: no accessibility service'' = ''[dashboard] ERROR: no accessibility service''"
    by (simp add: log_line_def SECRET_def)
  have d: "log_line ''ERROR: timeout'' = ''[dashboard] ERROR: timeout''"
    by (simp add: log_line_def SECRET_def)
  from push_failures_are_caught [of "[pass_fail, pass_broken, pass_ok]" init pass_broken init "[]" pass_fail init "[]"]
  show ?thesis
    using a b c d by (auto simp: init_def)
qed




text \<open>
  C6. With Monthly rules as the specification describes them: a listed day that a month does
  not have gives no occurrence in that month; every occurrence of the month falls on a listed
  day that the month has, so no other day stands in for the missing one; and
  \<open>Monthly{days:[31]}\<close> has no occurrence in any February.
\<close>

theorem monthly_skips_missing_day:
  "(days_in_month y m < d \<longrightarrow> ((y, m, d), hr) \<notin> monthly_occurrences days hour y m) \<and>
   (\<forall>oc\<in>monthly_occurrences days' hour' y' m'.
      day_of oc \<in> days' \<and> 1 \<le> day_of oc \<and> day_of oc \<le> days_in_month y' m') \<and>
   monthly_occurrences {31} hour2 y2 2 = {}"
proof (intro conjI)
  show "days_in_month y m < d \<longrightarrow> ((y, m, d), hr) \<notin> monthly_occurrences days hour y m"
    by (auto simp: monthly_occurrences_def)
  show "\<forall>oc\<in>monthly_occurrences days' hour' y' m'.
      day_of oc \<in> days' \<and> 1 \<le> day_of oc \<and> day_of oc \<le> days_in_month y' m'"
    by (auto simp: monthly_occurrences_def day_of_def)
  show "monthly_occurrences {31} hour2 y2 2 = {}"
    using february [of y2] by (auto simp: monthly_occurrences_def)
qed

theorem monthly_skips_missing_day_witness:
  "days_in_month 2025 2 < 31 \<and> ((2025, 2, 31), 9) \<notin> monthly_occurrences {15, 31} 9 2025 2 \<and>
   ((2025, 2, 15), 9) \<in> monthly_occurrences {15, 31} 9 2025 2 \<and>
   day_of ((2025, 2, 15), 9) \<in> {15, 31} \<and> day_of ((2025, 2, 15), 9) \<le> days_in_month 2025 2"
proof -
  have a: "days_in_month 2025 2 < 31"
    by (simp add: days_in_month_def leap_year_def)
  have b: "((2025, 2, 15), 9) \<in> monthly_occurrences {15, 31} 9 2025 2"
    by (simp add: monthly_occurrences_def days_in_month_def leap_year_def image_iff)
  note inst = monthly_skips_missing_day [of 2025 2 31 9 "{15, 31}" 9 "{15, 31}" 9 2025 2]
  from inst a have "((2025, 2, 31), 9) \<notin> monthly_occurrences {15, 31} 9 2025 2"
    by blast
  moreover from inst b have "day_of ((2025, 2, 15), 9) \<in> {15, 31} \<and>
      1 \<le> day_of ((2025, 2, 15), 9) \<and> day_of ((2025, 2, 15), 9) \<le> days_in_month 2025 2"
    by blast
  ultimately show ?thesis using a b by blast
qed

text \<open>
  C7. With the Presence Tracker as the specification describes it: a tracked device is
  reported \<open>Offline\<close> exactly when \<open>now - last_seen\<close> exceeds \<open>timeout_seconds\<close> and
  \<open>Online\<close> otherwise; with \<open>last_seen = now - timeout_seconds - 1\<close> it is \<open>Offline\<close>,
  with \<open>last_seen = now - timeout_seconds + 1\<close> it is \<open>Online\<close>; and after a push
  received at \<open>seen\<close> the device is \<open>Offline\<close> exactly when \<open>now - seen\<close> exceeds the
  timeout.
\<close>

theorem offline_after_timeout:
  "(tracker i = Some r \<longrightarrow>
      (liveness_of timeout clock tracker i = Offline \<longleftrightarrow> timeout < clock - last_seen r) \<and>
      (liveness_of timeout clock tracker i = Online \<longleftrightarrow> clock - last_seen r \<le> timeout)) \<and>
   (tracker1 i1 = Some r1 \<and> last_seen r1 = now1 - timeout1 - 1 \<longrightarrow>
      liveness_of timeout1 now1 tracker1 i1 = Offline) \<and>
   (tracker2 i2 = Some r2 \<and> last_seen r2 = now2 - timeout2 + 1 \<longrightarrow>
      liveness_of timeout2 now2 tracker2 i2 = Online) \<and>
   liveness_of timeout3 now3 (receive_push seen p tracker3) (push_id p) =
     (if timeout3 < now3 - seen then Offline else Online)"
proof -
  obtain r' where "receive_push seen p tracker3 (push_id p) = Some r'" "last_seen r' = seen"
    using receive_push_last_seen by blast
  then have "liveness_of timeout3 now3 (receive_push seen p tracker3) (push_id p) =
     (if timeout3 < now3 - seen then Offline else Online)"
    by (simp add: liveness_of_def)
  then show ?thesis
    by (simp add: liveness_of_def)
qed

theorem offline_after_timeout_witness:
  "receive_push 1000 phone_push Map.empty ''phone'' =
     Some \<lparr>device_id = ''phone'', show_name = ''Phone'', is_using = True,
           app_name = ''[85%] WeChat'', last_seen = 1000\<rparr> \<and>
   liveness_of 60 1061 (receive_push 1000 phone_push Map.empty) ''phone'' = Offline \<and>
   liveness_of 60 1059 (receive_push 1000 phone_push Map.empty) ''phone'' = Online \<and>
   liveness_of 60 1060 (receive_push 1000 phone_push Map.empty) ''phone'' = Online"
proof -
  let ?r = "\<lparr>device_id = ''phone'', show_name = ''Phone'', is_using = True,
           app_name = ''[85%] WeChat'', last_seen = 1000\<rparr>"
  let ?t = "receive_push 1000 phone_push Map.empty"
  have a: "?t ''phone'' = Some ?r"
    by (simp add: receive_push_def phone_push_def)
  have b: "last_seen ?r = 1061 - 60 - 1" and c: "last_seen ?r = 1059 - 60 + 1"
    by simp_all
  note inst = offline_after_timeout [of ?t "''phone''" ?r 60 1060 ?t "''phone''" ?r 1061 60
      ?t "''phone''" ?r 1059 60]
  from inst a b have "liveness_of 60 1061 ?t ''phone'' = Offline" by blast
  moreover from inst a c have "liveness_of 60 1059 ?t ''phone'' = Online" by blast
  moreover from inst a have "liveness_of 60 1060 ?t ''phone'' = Online" by simp
  ultimately show ?thesis using a by simp
qed

text \<open>
  C8. In every object the client posts, \<open>using\<close> is true exactly when \<open>app_name\<close> is a
  non-empty string. The exit report, which is the last post of a run, carries
  \<open>using = false\<close> and an empty \<open>app_name\<close>, and so does any push made while the screen is
  off.
\<close>

theorem using_iff_app_name_nonempty:
  "(\<forall>c\<in>set (posts (run envs outcome)).
      \<exists>a. field ''app_name'' (snd c) = Some (JStr a) \<and>
          field ''using'' (snd c) = Some (JBool (a \<noteq> []))) \<and>
   field ''using'' (snd (last (posts (run envs outcome)))) = Some (JBool False) \<and>
   field ''app_name'' (snd (last (posts (run envs outcome)))) = Some (JStr []) \<and>
   (\<forall>d. dev env = Inr d \<and> \<not> screen_on d \<longrightarrow>
      (\<forall>c\<in>set (pushed env s).
         field ''using'' (snd c) = Some (JBool False) \<and> field ''app_name'' (snd c) = Some (JStr [])))"
proof -
  have every: "\<forall>c\<in>set (posts (run envs outcome)).
      \<exists>a. field ''app_name'' (snd c) = Some (JStr a) \<and>
          field ''using'' (snd c) = Some (JBool (a \<noteq> []))"
  proof
    fix c assume "c \<in> set (posts (run envs outcome))"
    from run_posts_shape [OF this] obtain a where "c = (API_URL, push_payload (a \<noteq> []) a)" ..
    then show "\<exists>a. field ''app_name'' (snd c) = Some (JStr a) \<and>
          field ''using'' (snd c) = Some (JBool (a \<noteq> []))"
      by (simp add: push_payload_fields)
  qed
  have exit_using: "field ''using'' (snd (last (posts (run envs outcome)))) = Some (JBool False)"
    by (simp add: run_state_of posts_on_exit push_payload_fields)
  have exit_name: "field ''app_name'' (snd (last (posts (run envs outcome)))) = Some (JStr [])"
    by (simp add: run_state_of posts_on_exit push_payload_fields)
  have dark: "\<forall>d. dev env = Inr d \<and> \<not> screen_on d \<longrightarrow>
      (\<forall>c\<in>set (pushed env s).
         field ''using'' (snd c) = Some (JBool False) \<and> field ''app_name'' (snd c) = Some (JStr []))"
    by (auto simp: pushed_return check_status_dark push_payload_fields split: if_splits)
  from every exit_using exit_name dark show ?thesis by blast
qed

theorem using_iff_app_name_nonempty_witness:
  "(API_URL, push_payload True ''[85%] WeChat'') \<in> set (posts (run [pass_fail, pass_ok] (Inr ''ok''))) \<and>
   (\<exists>a. field ''app_name'' (push_payload True ''[85%] WeChat'') = Some (JStr a) \<and>
        field ''using'' (push_payload True ''[85%] WeChat'') = Some (JBool (a \<noteq> []))) \<and>
   dev pass_dark_ok = Inr phone_dark \<and> \<not> screen_on phone_dark \<and>
   (API_URL, push_payload False []) \<in> set (pushed pass_dark_ok init) \<and>
   field ''using'' (push_payload False []) = Some (JBool False) \<and>
   field ''app_name'' (push_payload False []) = Some (JStr [])"
proof -
  have a: "(API_URL, push_payload True ''[85%] WeChat'') \<in> set (posts (run [pass_fail, pass_ok] (Inr ''ok'')))"
    by (simp add: posts_sample_run)
  have b: "dev pass_dark_ok = Inr phone_dark \<and> \<not> screen_on phone_dark"
    by (simp add: pass_dark_ok_def phone_dark_def)
  have c: "(API_URL, push_payload False []) \<in> set (pushed pass_dark_ok init)"
    by (simp add: pushed_return [of _ phone_dark] check_status_dark pass_dark_ok_def phone_dark_def
        init_def HEARTBEAT_INTERVAL_def)
  note inst = using_iff_app_name_nonempty [of "[pass_fail, pass_ok]" "Inr ''ok''" pass_dark_ok init]
  from inst a have "\<exists>x. field ''app_name'' (snd (API_URL, push_payload True ''[85%] WeChat'')) = Some (JStr x) \<and>
        field ''using'' (snd (API_URL, push_payload True ''[85%] WeChat'')) = Some (JBool (x \<noteq> []))"
    by blast
  moreover from inst b c
  have "field ''using'' (snd (API_URL, push_payload False [])) = Some (JBool False) \<and>
        field ''app_name'' (snd (API_URL, push_payload False [])) = Some (JStr [])"
    by blast
  ultimately show ?thesis
    using a b c by simp
qed

text \<open>
  C9, as amended. \<open>do_send\<close> stores \<open>Date.now()\<close> in \<open>last_send_time\<close> when the post goes
  through (\<open>http.postJson\<close> returns and the body of the response is read) and leaves it
  unchanged when the post throws. So when the heartbeat condition held
  on the pass of a post that throws, it holds again on the next pass (the clock not being set
  back) and a push is attempted there. When the status changed, \<open>last_status\<close> holds the new
  status after the pass even though the post threw.
\<close>

theorem failed_send_keeps_last_send_time:
  "(post env1 = Inr body \<longrightarrow> last_send_time (do_send env1 a1 s1) = sent_at env1) \<and>
   (post env2 = Inl e2 \<longrightarrow> last_send_time (do_send env2 a2 s2) = last_send_time s2) \<and>
   (dev env = Inr d \<and> post env = Inl e \<and> HEARTBEAT_INTERVAL \<le> now env - last_send_time s \<and>
    dev env' = Inr d' \<and> now env \<le> now env' \<longrightarrow>
      last_send_time (state_of (loop_body env s)) = last_send_time s \<and>
      HEARTBEAT_INTERVAL \<le> now env' - last_send_time (state_of (loop_body env s)) \<and>
      pushed env' (state_of (loop_body env s)) =
        [(API_URL, push_payload (check_status d' \<noteq> []) (check_status d'))]) \<and>
   (dev env3 = Inr d3 \<and> post env3 = Inl e3 \<and> check_status d3 \<noteq> last_status s3 \<longrightarrow>
      last_status (state_of (loop_body env3 s3)) = check_status d3 \<and>
      last_send_time (state_of (loop_body env3 s3)) = last_send_time s3)"
proof -
  have ok: "post env1 = Inr body \<longrightarrow> last_send_time (do_send env1 a1 s1) = sent_at env1"
    by (simp add: do_send_last_send_time)
  have fail: "post env2 = Inl e2 \<longrightarrow> last_send_time (do_send env2 a2 s2) = last_send_time s2"
    by (simp add: do_send_last_send_time)
  have again: "dev env = Inr d \<and> post env = Inl e \<and> HEARTBEAT_INTERVAL \<le> now env - last_send_time s \<and>
    dev env' = Inr d' \<and> now env \<le> now env' \<longrightarrow>
      last_send_time (state_of (loop_body env s)) = last_send_time s \<and>
      HEARTBEAT_INTERVAL \<le> now env' - last_send_time (state_of (loop_body env s)) \<and>
      pushed env' (state_of (loop_body env s)) =
        [(API_URL, push_payload (check_status d' \<noteq> []) (check_status d'))]"
  proof
    assume h: "dev env = Inr d \<and> post env = Inl e \<and> HEARTBEAT_INTERVAL \<le> now env - last_send_time s \<and>
      dev env' = Inr d' \<and> now env \<le> now env'"
    then have same: "last_send_time (state_of (loop_body env s)) = last_send_time s"
      by (simp add: state_of_loop_body_return [of env d])
    with h have hb: "HEARTBEAT_INTERVAL \<le> now env' - last_send_time (state_of (loop_body env s))"
      by simp
    with h have "pushed env' (state_of (loop_body env s)) =
        [(API_URL, push_payload (check_status d' \<noteq> []) (check_status d'))]"
      by (simp add: pushed_return [of env' d'])
    with same hb show "last_send_time (state_of (loop_body env s)) = last_send_time s \<and>
      HEARTBEAT_INTERVAL \<le> now env' - last_send_time (state_of (loop_body env s)) \<and>
      pushed env' (state_of (loop_body env s)) =
        [(API_URL, push_payload (check_status d' \<noteq> []) (check_status d'))]"
      by simp
  qed
  have before: "dev env3 = Inr d3 \<and> post env3 = Inl e3 \<and> check_status d3 \<noteq> last_status s3 \<longrightarrow>
      last_status (state_of (loop_body env3 s3)) = check_status d3 \<and>
      last_send_time (state_of (loop_body env3 s3)) = last_send_time s3"
    by (simp add: state_of_loop_body_return [of env3 d3])
  from ok fail again before show ?thesis by blast
qed

theorem failed_send_keeps_last_send_time_witness:
  "post pass_ok = Inr ''ok'' \<and> last_send_time (do_send pass_ok ''[85%] WeChat'' init) = sent_at pass_ok \<and>
   post pass_fail = Inl ''timeout'' \<and>
   last_send_time (do_send pass_fail ''[85%] WeChat'' sent_wechat) = last_send_time sent_wechat \<and>
   dev pass_fail = Inr phone \<and> HEARTBEAT_INTERVAL \<le> now pass_fail - last_send_time init \<and>
   dev pass_ok = Inr phone \<and> now pass_fail \<le> now pass_ok \<and>
   pushed pass_ok (state_of (loop_body pass_fail init)) = [(API_URL, push_payload True ''[85%] WeChat'')] \<and>
   check_status phone \<noteq> last_status init \<and>
   last_status (state_of (loop_body pass_fail init)) = ''[85%] WeChat''"
proof -
  have h1: "post pass_ok = Inr ''ok''" and h2: "post pass_fail = Inl ''timeout''"
    by (simp_all add: pass_ok_fields pass_fail_fields)
  have h3: "dev pass_fail = Inr phone \<and> post pass_fail = Inl ''timeout'' \<and>
      HEARTBEAT_INTERVAL \<le> now pass_fail - last_send_time init \<and>
      dev pass_ok = Inr phone \<and> now pass_fail \<le> now pass_ok"
    by (simp add: pass_ok_fields pass_fail_fields init_fields HEARTBEAT_INTERVAL_def)
  have h4: "dev pass_fail = Inr phone \<and> post pass_fail = Inl ''timeout'' \<and>
      check_status phone \<noteq> last_status init"
    by (simp add: pass_fail_fields init_fields check_status_phone)
  note inst = failed_send_keeps_last_send_time [of pass_ok "''ok''" "''[85%] WeChat''" init
      pass_fail "''timeout''" "''[85%] WeChat''" sent_wechat
      pass_fail phone "''timeout''" init pass_ok phone
      pass_fail phone "''timeout''" init]
  from inst h1 have c1: "last_send_time (do_send pass_ok ''[85%] WeChat'' init) = sent_at pass_ok"
    by blast
  from inst h2 have c2: "last_send_time (do_send pass_fail ''[85%] WeChat'' sent_wechat) = last_send_time sent_wechat"
    by blast
  from inst h3 have c3: "pushed pass_ok (state_of (loop_body pass_fail init)) =
      [(API_URL, push_payload (check_status phone \<noteq> []) (check_status phone))]"
    by blast
  from inst h4 have c4: "last_status (state_of (loop_body pass_fail init)) = check_status phone"
    by blast
  from h1 h2 h3 h4 c1 c2 c3 c4 show ?thesis
    by (simp add: check_status_phone)
qed

text \<open>
  C9 as stated does not hold: a status-change push that throws 2.8 seconds after a successful
  send leaves \<open>last_send_time\<close> unchanged, yet on the next pass the status is the same, the
  heartbeat condition does not hold and nothing is sent.
\<close>

theorem failed_change_push_not_retried:
  "pushed pass_change_fail (state_of (loop_body pass_dark_ok init)) =
     [(API_URL, push_payload True ''[85%] WeChat'')] \<and>
   post pass_change_fail = Inl ''timeout'' \<and>
   last_send_time (state_of (loop_body pass_change_fail (state_of (loop_body pass_dark_ok init)))) =
     last_send_time (state_of (loop_body pass_dark_ok init)) \<and>
   \<not> HEARTBEAT_INTERVAL \<le> now pass_soon -
       last_send_time (state_of (loop_body pass_change_fail (state_of (loop_body pass_dark_ok init)))) \<and>
   pushed pass_soon (state_of (loop_body pass_change_fail (state_of (loop_body pass_dark_ok init)))) = []"
proof -
  let ?s1 = "state_of (loop_body pass_dark_ok init)"
  let ?s2 = "state_of (loop_body pass_change_fail ?s1)"
  have 1: "pushed pass_dark_ok init = [(API_URL, push_payload False [])]"
    by (simp add: pushed_return [OF pass_dark_ok_fields(1)] check_status_phone_dark init_fields
        pass_dark_ok_fields HEARTBEAT_INTERVAL_def)
  have s1: "last_status ?s1 = []" "last_send_time ?s1 = 1700000000200"
    by (simp_all add: state_of_loop_body_return [OF pass_dark_ok_fields(1)] 1 check_status_phone_dark
        pass_dark_ok_fields)
  have 2: "pushed pass_change_fail ?s1 = [(API_URL, push_payload True ''[85%] WeChat'')]"
    by (simp add: pushed_return [OF pass_change_fail_fields(1)] check_status_phone s1)
  have s2: "last_status ?s2 = ''[85%] WeChat''" "last_send_time ?s2 = 1700000000200"
    by (simp_all add: state_of_loop_body_return [OF pass_change_fail_fields(1)] 2 check_status_phone
        s1 pass_change_fail_fields)
  have 3: "pushed pass_soon ?s2 = []"
    by (simp add: pushed_return [OF pass_soon_fields(1)] check_status_phone s2 pass_soon_fields
        HEARTBEAT_INTERVAL_def)
  show ?thesis
    by (simp add: 2 3 s1 s2 pass_change_fail_fields pass_soon_fields HEARTBEAT_INTERVAL_def)
qed

text \<open>
  C10 fails on the code: \<open>log\<close> replaces the first occurrence of the secret only. A message
  that contains the secret twice, such as the line \<open>do_send\<close> logs for a response that
  echoes it twice, is written with the second occurrence in clear.
\<close>

theorem log_leaves_second_secret:
  "log_line (''response: '' @ SECRET @ '' '' @ SECRET) =
     ''[dashboard] response: [SECRET] '' @ SECRET \<and>
   last (console (do_send pass_echo ''[85%] WeChat'' init)) =
     ''[dashboard] response: [SECRET] '' @ SECRET \<and>
   sublist SECRET (last (console (do_send pass_echo ''[85%] WeChat'' init)))"
  by (simp add: do_send_def postJson_def pass_echo_def log_def log_line_def init_def SECRET_def
      sublist_Cons_right)

end
